theory Spec2Isabelle
  imports Complex_Main
begin

section \<open>The promo-video page: frame size, frame compositor, word wrap, recorder\<close>

text \<open>
  A shallow embedding of \<^verbatim>\<open>src/app/page.tsx\<close>. JavaScript numbers are modelled as
  real numbers: every formula of the page is read over \<open>real\<close>, so rounding of IEEE
  doubles, infinities and NaN are outside the model. Where the source divides, the
  divisor is a duration or an image dimension; HOL's \<open>x / 0 = 0\<close> differs from
  JavaScript there, and every statement below that depends on such a quotient assumes
  the divisor positive.
\<close>

subsection \<open>Library functions of JavaScript\<close>

text \<open>\<^verbatim>\<open>Math.round\<close>: the nearest integer, a tie going towards plus infinity.\<close>

definition Math_round :: "real \<Rightarrow> real" where
  "Math_round v = of_int \<lfloor>v + 1 / 2\<rfloor>"

text \<open>
  \<^verbatim>\<open>String.prototype.split\<close> with a separator of one character: a separator at each
  end, or two in a row, give empty pieces, and the empty string gives one empty piece.
\<close>

fun split_on :: "char \<Rightarrow> string \<Rightarrow> string list" where
  "split_on c [] = [[]]"
| "split_on c (a # as) =
     (if a = c then [] # split_on c as
      else (case split_on c as of [] \<Rightarrow> [[a]] | u # us \<Rightarrow> (a # u) # us))"

text \<open>
  \<^verbatim>\<open>Number\<close> applied to a string, on the strings that are runs of decimal digits (the
  empty string is 0). \<open>None\<close> stands for every other string: NaN and the literal forms
  (signs, fractions, exponents, surrounding blanks) that no aspect value contains.
\<close>

definition digit_value :: "char \<Rightarrow> nat option" where
  "digit_value c =
     (let k = (of_char c :: nat) in if 48 \<le> k \<and> k \<le> 57 then Some (k - 48) else None)"

fun digits_value :: "string \<Rightarrow> nat \<Rightarrow> nat option" where
  "digits_value [] acc = Some acc"
| "digits_value (c # cs) acc =
     (case digit_value c of None \<Rightarrow> None | Some k \<Rightarrow> digits_value cs (10 * acc + k))"

definition Number :: "string \<Rightarrow> real option" where
  "Number s = map_option real (digits_value s 0)"

text \<open>
  The delay of \<^verbatim>\<open>setTimeout\<close> in a browser: the number is converted to a 32-bit signed
  integer (the fraction is dropped, and a value beyond the range wraps around modulo
  \<open>2\<^sup>3\<^sup>2\<close>), and a negative result is taken as 0. So a delay from 0 to 2147483647
  milliseconds is used without its fraction, and a larger one is not used as written.
\<close>

definition ToInt32 :: "real \<Rightarrow> int" where
  "ToInt32 v =
     (let n = (if v < 0 then - \<lfloor>- v\<rfloor> else \<lfloor>v\<rfloor>);
          k = n mod 4294967296
      in if 2147483648 \<le> k then k - 4294967296 else k)"

definition timer_delay :: "real \<Rightarrow> real" where
  "timer_delay v = of_int (max 0 (ToInt32 v))"

subsection \<open>Aspect and frame size\<close>

text \<open>\<^verbatim>\<open>type Aspect = "9:16" | "4:5"\<close>, with the string each value is.\<close>

datatype Aspect = Aspect_9_16 | Aspect_4_5

fun aspect_text :: "Aspect \<Rightarrow> string" where
  "aspect_text Aspect_9_16 = ''9:16''"
| "aspect_text Aspect_4_5 = ''4:5''"

record parsed_aspect =
  aspect_w :: real
  aspect_h :: real
  aspect_ratio :: real

definition parseAspect :: "Aspect \<Rightarrow> parsed_aspect option" where
  "parseAspect a =
     (case map Number (split_on CHR '':'' (aspect_text a)) of
        Some pw # Some ph # _ \<Rightarrow>
          Some \<lparr>aspect_w = pw, aspect_h = ph, aspect_ratio = pw / ph\<rparr>
      | _ \<Rightarrow> None)"

record frame_size =
  width :: real
  height :: real

definition constrainSize :: "Aspect \<Rightarrow> real \<Rightarrow> frame_size option" where
  "constrainSize a maxWidth =
     (case parseAspect a of
        None \<Rightarrow> None
      | Some p \<Rightarrow>
          Some \<lparr>width = maxWidth, height = Math_round (maxWidth / aspect_ratio p)\<rparr>)"

subsection \<open>Word wrap\<close>

text \<open>
  \<^verbatim>\<open>wrapText\<close> paints with \<^verbatim>\<open>ctx.fillText(line, x, currentY)\<close>; the model returns the
  calls in order, each as the text, \<open>x\<close> and \<open>y\<close>. The measure function stands for
  \<^verbatim>\<open>ctx.measureText(s).width\<close> under the font in force. \<open>wrapLoop\<close> is the
  \<^verbatim>\<open>for\<close> loop from index \<open>n\<close> on, over the words not yet visited, followed by the
  final \<^verbatim>\<open>fillText\<close>.
\<close>

type_synonym fill_text = "string \<times> real \<times> real"

fun wrapLoop ::
  "(string \<Rightarrow> real) \<Rightarrow> real \<Rightarrow> real \<Rightarrow> real \<Rightarrow> nat \<Rightarrow> string list \<Rightarrow> string \<Rightarrow> real
    \<Rightarrow> fill_text list" where
  "wrapLoop measureText x maxWidth lineHeight n [] line currentY = [(line, x, currentY)]"
| "wrapLoop measureText x maxWidth lineHeight n (word # rest) line currentY =
     (let testLine = line @ word @ '' '';
          testWidth = measureText testLine
      in if testWidth > maxWidth \<and> n > 0
         then (line, x, currentY) #
              wrapLoop measureText x maxWidth lineHeight (n + 1) rest (word @ '' '')
                (currentY + lineHeight)
         else wrapLoop measureText x maxWidth lineHeight (n + 1) rest testLine currentY)"

definition wrapText ::
  "(string \<Rightarrow> real) \<Rightarrow> string \<Rightarrow> real \<Rightarrow> real \<Rightarrow> real \<Rightarrow> real \<Rightarrow> fill_text list" where
  "wrapText measureText text x y maxWidth lineHeight =
     wrapLoop measureText x maxWidth lineHeight 0 (split_on CHR '' '' text) [] y"

text \<open>The lines of text painted, top to bottom.\<close>

definition wrapLines :: "(string \<Rightarrow> real) \<Rightarrow> string \<Rightarrow> real \<Rightarrow> string list" where
  "wrapLines measureText text maxWidth = map fst (wrapText measureText text 0 0 maxWidth 0)"

text \<open>
  The words of a painted line: a line is its words, each followed by one blank, so
  splitting at blanks gives the words and one empty piece after the last blank.
\<close>

definition line_words :: "string \<Rightarrow> string list" where
  "line_words line = butlast (split_on CHR '' '' line)"

text \<open>A run of words as it is painted: each word followed by one blank.\<close>

definition spaced :: "string list \<Rightarrow> string" where
  "spaced g = concat (map (\<lambda>word. word @ '' '') g)"

text \<open>A measure for examples: every character is one unit wide.\<close>

definition unit_width :: "string \<Rightarrow> real" where
  "unit_width s = real (length s)"

subsection \<open>The frame compositor\<close>

text \<open>
  The values \<^verbatim>\<open>drawFrame\<close> computes, each under the name of its local constant.
  \<open>elapsed\<close> is in seconds, \<open>t\<close> the progress \<^verbatim>\<open>Math.min(elapsed / durationSec, 1)\<close>.
\<close>

definition elapsed_at :: "real \<Rightarrow> real \<Rightarrow> real" where
  "elapsed_at startTime now = (now - startTime) / 1000"

definition progress :: "real \<Rightarrow> real \<Rightarrow> real" where
  "progress el dur = min (el / dur) 1"

definition zoom_at :: "real \<Rightarrow> real" where
  "zoom_at p = 1.05 + p * 0.12"

definition panX_at :: "real \<Rightarrow> real" where
  "panX_at p = sin (p * pi * 2) * 0.05"

definition panY_at :: "real \<Rightarrow> real" where
  "panY_at p = cos (p * pi * 2) * 0.04"

definition ease :: "real \<Rightarrow> real" where
  "ease v = 1 - (1 - v) ^ 3"

definition headAlpha_at :: "real \<Rightarrow> real \<Rightarrow> real" where
  "headAlpha_at el dur = (if progress el dur < 0.05 then ease (min (el / 2) 1) else 1)"

definition pointAlpha_at :: "real \<Rightarrow> nat \<Rightarrow> real" where
  "pointAlpha_at el i = min (max ((el - (4 + real i * 3)) / 1.5) 0) 1"

definition ctaAlpha_at :: "real \<Rightarrow> real" where
  "ctaAlpha_at el = min (max ((el - 12) / 1.5) 0) 1"

text \<open>The default copy; the source file holds the question marks as they stand here.\<close>

definition headline :: string where
  "headline = ''???? ???? ???????????????? Deen Ply Doors ???? perfect choice!''"

definition points :: "string list" where
  "points =
     [''Doors, Plywoods, Interior Items, Iron Doors, WPVC, UPVC ? ??? ????????'',
      ''Design super, price friendly, quality strong'',
      ''????? ???????? Bus Stop ???????'']"

definition cta :: string where
  "cta = ''DM ???????? ? catalog ???? ???????????!''"

text \<open>
  The fonts under which \<^verbatim>\<open>drawFrame\<close> measures text. The measure function of the
  compositor takes the font and the text: it stands for \<^verbatim>\<open>ctx.measureText(s).width\<close>
  after \<^verbatim>\<open>ctx.font\<close> has been set.
\<close>

definition headline_font :: string where
  "headline_font = ''800 22px ui-sans-serif, system-ui, -apple-system, Segoe UI, Roboto''"

definition cta_font :: string where
  "cta_font = ''800 16px ui-sans-serif, system-ui, -apple-system, Segoe UI, Roboto''"

text \<open>A measure for examples: under every font, a character is one unit wide.\<close>

definition unit_font :: "string \<Rightarrow> string \<Rightarrow> real" where
  "unit_font font s = real (length s)"

record image =
  naturalWidth :: real
  naturalHeight :: real

text \<open>
  One painted frame: the rectangle of \<^verbatim>\<open>drawImage\<close>, the headline's opacity and its
  wrapped lines, the bullet points (opacity, text, x, y), and the call-to-action pill
  (opacity, x, y, width, height) when the branch \<^verbatim>\<open>ctaAlpha > 0\<close> paints it. The black
  fill, the gradient and the badge are painted the same way in every frame and are left out.
\<close>

record frame =
  f_elapsed :: real
  f_t :: real
  f_zoom :: real
  f_panX :: real
  f_panY :: real
  f_drawW :: real
  f_drawH :: real
  f_dx :: real
  f_dy :: real
  f_headAlpha :: real
  f_headLines :: "fill_text list"
  f_points :: "(real \<times> string \<times> real \<times> real) list"
  f_ctaAlpha :: real
  f_cta :: "(real \<times> real \<times> real \<times> real \<times> real) option"

definition paint ::
  "(string \<Rightarrow> string \<Rightarrow> real) \<Rightarrow> frame_size \<Rightarrow> image \<Rightarrow> real \<Rightarrow> real \<Rightarrow> real \<Rightarrow> frame" where
  "paint measureText canvas img startTime dur now =
     (let elapsed = elapsed_at startTime now;
          p = progress elapsed dur;
          zoom = zoom_at p;
          panX = panX_at p;
          panY = panY_at p;
          scale = max (width canvas / naturalWidth img) (height canvas / naturalHeight img) * zoom;
          drawW = naturalWidth img * scale;
          drawH = naturalHeight img * scale;
          centerX = width canvas / 2 + panX * width canvas;
          centerY = height canvas / 2 + panY * height canvas;
          dx = Math_round (centerX - drawW / 2);
          dy = Math_round (centerY - drawH / 2);
          pad = 16;
          ctaAlpha = ctaAlpha_at elapsed;
          ctaW = measureText cta_font cta + 12 * 2;
          ctaH = 34;
          ctaX = width canvas - ctaW - pad;
          ctaY = height canvas - ctaH - pad
      in \<lparr>f_elapsed = elapsed, f_t = p, f_zoom = zoom, f_panX = panX, f_panY = panY,
          f_drawW = drawW, f_drawH = drawH, f_dx = dx, f_dy = dy,
          f_headAlpha = headAlpha_at elapsed dur,
          f_headLines =
            wrapText (measureText headline_font) headline pad (height canvas - 160)
              (width canvas - pad * 2) 28,
          f_points =
            map (\<lambda>i. (pointAlpha_at elapsed i, ''? '' @ points ! i, pad,
                       height canvas - 120 + real i * 22))
              [0..<length points],
          f_ctaAlpha = ctaAlpha,
          f_cta = (if ctaAlpha > 0 then Some (ctaAlpha, ctaX, ctaY, ctaW, ctaH) else None)\<rparr>)"

subsection \<open>The page\<close>

text \<open>
  The state of the component: the five \<^verbatim>\<open>useState\<close> cells, the \<^verbatim>\<open>useRef\<close> cells, and
  the part of the browser the handlers act on. A \<^verbatim>\<open>MediaRecorder\<close> is its index in
  \<open>recorders\<close>, where its \<^verbatim>\<open>state\<close> attribute is kept. An object URL is the number
  of the call of \<^verbatim>\<open>URL.createObjectURL\<close> that made it, a handle of
  \<^verbatim>\<open>requestAnimationFrame\<close> a positive number. \<open>timeouts\<close> holds the callbacks of
  \<^verbatim>\<open>setTimeout\<close> not yet run, each with the time it is due and the recorder its
  closure holds; nothing in the page calls \<^verbatim>\<open>clearTimeout\<close>. \<open>stopCalls\<close> logs every
  call of \<^verbatim>\<open>recorder.stop()\<close> with the recorder's state at the call. \<open>painted\<close>
  is the frame last painted on the canvas. \<open>loopDurationSec\<close> is the duration held by
  the closure of the running preview loop: \<^verbatim>\<open>loop\<close> calls the \<^verbatim>\<open>drawFrame\<close> of the render
  in which \<^verbatim>\<open>startPreview\<close> was called, so a later change of the duration does not reach
  a loop that is already running.
\<close>

datatype RecordingState = inactive | recording

datatype page_error = NotSupportedError

record page =
  imageUrl :: "nat option"
  aspect :: Aspect
  durationSec :: real
  isRecording :: bool
  downloadUrl :: "nat option"
  canvasRef :: "frame_size option"
  imageRef :: "image option"
  recorderRef :: "nat option"
  chunksRef :: "nat list"
  startTimeRef :: real
  animRef :: "nat option"
  recorders :: "RecordingState list"
  timeouts :: "(real \<times> nat) list"
  stopEvents :: "nat list"
  stopCalls :: "(nat \<times> RecordingState) list"
  clock :: real
  urlCount :: nat
  frameCount :: nat
  pendingFrame :: "nat option"
  loopDurationSec :: real
  vp9Supported :: bool
  painted :: "frame option"

text \<open>
  \<^verbatim>\<open>drawFrame\<close> returns without painting when the canvas or the image is missing. The
  2D context of an existing canvas is taken to be available. The canvas, the image and
  the start time are read from the refs at each call; the duration \<open>dur\<close> is the one
  of the render that made this \<^verbatim>\<open>drawFrame\<close>.
\<close>

definition drawFrame ::
  "(string \<Rightarrow> string \<Rightarrow> real) \<Rightarrow> real \<Rightarrow> real \<Rightarrow> page \<Rightarrow> frame option" where
  "drawFrame measureText dur now s =
     (case (canvasRef s, imageRef s) of
        (Some canvas, Some img) \<Rightarrow>
          Some (paint measureText canvas img (startTimeRef s) dur now)
      | _ \<Rightarrow> None)"

definition handleFile :: "page \<Rightarrow> page" where
  "handleFile s =
     (let url = urlCount s
      in s\<lparr>urlCount := urlCount s + 1, imageUrl := Some url, downloadUrl := None\<rparr>)"

text \<open>
  \<^verbatim>\<open>if (animRef.current) cancelAnimationFrame(animRef.current)\<close>: the test is for a
  truthy value, which a handle of 0 is not.
\<close>

definition cancelIfSet :: "page \<Rightarrow> page" where
  "cancelIfSet s =
     (case animRef s of
        None \<Rightarrow> s
      | Some k \<Rightarrow> if k \<noteq> 0 \<and> pendingFrame s = Some k then s\<lparr>pendingFrame := None\<rparr> else s)"

definition requestFrame :: "page \<Rightarrow> page" where
  "requestFrame s =
     (let k = frameCount s + 1
      in s\<lparr>frameCount := k, pendingFrame := Some k, animRef := Some k\<rparr>)"

definition startPreview :: "page \<Rightarrow> page" where
  "startPreview s =
     (if canvasRef s = None \<or> imageRef s = None then s
      else requestFrame ((cancelIfSet s)\<lparr>startTimeRef := 0, loopDurationSec := durationSec s\<rparr>))"

definition stopPreview :: "page \<Rightarrow> page" where
  "stopPreview s = (cancelIfSet s)\<lparr>animRef := None\<rparr>"

text \<open>One run of the callback \<^verbatim>\<open>loop\<close> of \<^verbatim>\<open>startPreview\<close>, at the timestamp \<open>ts\<close>.\<close>

definition loop :: "(string \<Rightarrow> string \<Rightarrow> real) \<Rightarrow> real \<Rightarrow> page \<Rightarrow> page" where
  "loop measureText ts s =
     (let s1 = (if startTimeRef s = 0 then s\<lparr>startTimeRef := ts\<rparr> else s);
          s2 = (case drawFrame measureText (loopDurationSec s1) ts s1 of
                  None \<Rightarrow> s1
                | Some fr \<Rightarrow> s1\<lparr>painted := Some fr\<rparr>)
      in requestFrame s2)"

text \<open>
  \<^verbatim>\<open>recorder.stop()\<close>: on a recorder that is recording, the state becomes inactive and
  its \<^verbatim>\<open>stop\<close> event is queued; on an inactive recorder nothing changes. Every call is
  logged.
\<close>

definition recorder_stop :: "nat \<Rightarrow> page \<Rightarrow> page" where
  "recorder_stop r s =
     (if r < length (recorders s)
      then (let s1 = s\<lparr>stopCalls := stopCalls s @ [(r, recorders s ! r)]\<rparr>
            in if recorders s ! r = recording
               then s1\<lparr>recorders := (recorders s)[r := inactive],
                       stopEvents := stopEvents s @ [r]\<rparr>
               else s1)
      else s)"

text \<open>The handler \<^verbatim>\<open>recorder.ondataavailable\<close>, for a chunk of the given size.\<close>

definition ondataavailable :: "nat \<Rightarrow> page \<Rightarrow> page" where
  "ondataavailable sz s = (if sz > 0 then s\<lparr>chunksRef := chunksRef s @ [sz]\<rparr> else s)"

text \<open>The handler \<^verbatim>\<open>recorder.onstop\<close>.\<close>

definition onstop :: "page \<Rightarrow> page" where
  "onstop s =
     (let url = urlCount s
      in stopPreview (s\<lparr>urlCount := urlCount s + 1, downloadUrl := Some url,
                         isRecording := False\<rparr>))"

text \<open>The browser dispatches the oldest queued \<^verbatim>\<open>stop\<close> event.\<close>

definition dispatchStop :: "page \<Rightarrow> page" where
  "dispatchStop s =
     (case stopEvents s of [] \<Rightarrow> s | r # rest \<Rightarrow> onstop (s\<lparr>stopEvents := rest\<rparr>))"

text \<open>
  \<^verbatim>\<open>startRecording\<close>. The early return leaves the state as it is. The constructor of
  \<^verbatim>\<open>MediaRecorder\<close> throws when the MIME type is not supported, before anything is
  written. The stop is scheduled with \<^verbatim>\<open>setTimeout\<close>, whose delay is converted as
  \<open>timer_delay\<close> says.
\<close>

definition startRecording :: "page \<Rightarrow> page_error + page" where
  "startRecording s =
     (if canvasRef s = None \<or> imageRef s = None then Inr s
      else if \<not> vp9Supported s then Inl NotSupportedError
      else
        (let recorder = length (recorders s);
             s1 = s\<lparr>recorders := recorders s @ [inactive]\<rparr>;
             s2 = s1\<lparr>chunksRef := []\<rparr>;
             s3 = s2\<lparr>recorderRef := Some recorder\<rparr>;
             s4 = s3\<lparr>isRecording := True\<rparr>;
             s5 = startPreview s4;
             s6 = s5\<lparr>recorders := (recorders s5)[recorder := recording]\<rparr>;
             s7 = s6\<lparr>timeouts :=
                        timeouts s6 @ [(clock s6 + timer_delay (durationSec s * 1000), recorder)]\<rparr>
         in Inr s7))"

definition stopRecording :: "page \<Rightarrow> page" where
  "stopRecording s = (case recorderRef s of None \<Rightarrow> s | Some r \<Rightarrow> recorder_stop r s)"

text \<open>
  Time passes: the clock moves on by \<open>dt\<close> milliseconds, and the callbacks of
  \<^verbatim>\<open>setTimeout\<close> that are due by then run, in the order they were registered.
\<close>

definition elapse :: "real \<Rightarrow> page \<Rightarrow> page" where
  "elapse dt s =
     (let now = clock s + dt;
          due = filter (\<lambda>e. fst e \<le> now) (timeouts s);
          later = filter (\<lambda>e. \<not> fst e \<le> now) (timeouts s)
      in fold (\<lambda>e. recorder_stop (snd e)) due (s\<lparr>clock := now, timeouts := later\<rparr>))"

text \<open>
  Every pending callback holds a recorder that exists. The page starts so, and every
  handler keeps it so.
\<close>

definition known_timeouts :: "page \<Rightarrow> bool" where
  "known_timeouts s = (\<forall>e\<in>set (timeouts s). snd e < length (recorders s))"

text \<open>
  The handlers written inline in the markup: the duration input stores
  \<^verbatim>\<open>Number(e.target.value)\<close> as it is (the attributes \<^verbatim>\<open>min\<close> and \<^verbatim>\<open>max\<close> of the
  input do not clamp a typed value); the hidden image element, rendered once an image
  URL is set, stores itself in \<^verbatim>\<open>imageRef\<close> when it is mounted, its natural size being 0
  until it has loaded; once loaded it has its natural size, and \<^verbatim>\<open>onLoad\<close> starts the
  preview.
\<close>

definition setDurationSec :: "real \<Rightarrow> page \<Rightarrow> page" where
  "setDurationSec v s = s\<lparr>durationSec := v\<rparr>"

definition imageMounted :: "page \<Rightarrow> page" where
  "imageMounted s = s\<lparr>imageRef := Some \<lparr>naturalWidth = 0, naturalHeight = 0\<rparr>\<rparr>"

definition imageLoaded :: "image \<Rightarrow> page \<Rightarrow> page" where
  "imageLoaded img s = startPreview (s\<lparr>imageRef := Some img\<rparr>)"

text \<open>
  The page after mounting, in a browser that supports the recorder's MIME type, and the
  page after a photo of 1080 by 1920 pixels has been chosen, mounted and loaded.
\<close>

definition initial_page :: page where
  "initial_page =
     \<lparr>imageUrl = None, aspect = Aspect_9_16, durationSec = 60, isRecording = False,
      downloadUrl = None, canvasRef = constrainSize Aspect_9_16 540, imageRef = None,
      recorderRef = None, chunksRef = [], startTimeRef = 0, animRef = None,
      recorders = [], timeouts = [], stopEvents = [], stopCalls = [], clock = 0,
      urlCount = 0, frameCount = 0, pendingFrame = None, loopDurationSec = 60,
      vp9Supported = True,
      painted = None\<rparr>"

definition photo :: image where
  "photo = \<lparr>naturalWidth = 1080, naturalHeight = 1920\<rparr>"

definition loaded_page :: page where
  "loaded_page = imageLoaded photo (imageMounted (handleFile initial_page))"

section \<open>Frame size\<close>

lemma parseAspect_9_16:
  "parseAspect Aspect_9_16 = Some \<lparr>aspect_w = 9, aspect_h = 16, aspect_ratio = 9 / 16\<rparr>"
  by (simp add: parseAspect_def Number_def digit_value_def)

lemma parseAspect_4_5:
  "parseAspect Aspect_4_5 = Some \<lparr>aspect_w = 4, aspect_h = 5, aspect_ratio = 4 / 5\<rparr>"
  by (simp add: parseAspect_def Number_def digit_value_def)

text \<open>
  C7: the frame size of an aspect is 540 wide and \<open>round (540 / ratio)\<close> high, the ratio
  being that of \<open>parseAspect\<close>: 540 by 960 for "9:16" and 540 by 675 for "4:5".
\<close>

theorem constrainSize_540:
  "(\<exists>p. parseAspect a = Some p \<and>
        constrainSize a 540 = Some \<lparr>width = 540, height = Math_round (540 / aspect_ratio p)\<rparr>) \<and>
   constrainSize Aspect_9_16 540 = Some \<lparr>width = 540, height = 960\<rparr> \<and>
   constrainSize Aspect_4_5 540 = Some \<lparr>width = 540, height = 675\<rparr>"
proof -
  have general: "\<exists>p. parseAspect a = Some p \<and>
        constrainSize a 540 = Some \<lparr>width = 540, height = Math_round (540 / aspect_ratio p)\<rparr>"
    by (cases a) (simp_all add: constrainSize_def parseAspect_9_16 parseAspect_4_5)
  have tall: "constrainSize Aspect_9_16 540 = Some \<lparr>width = 540, height = 960\<rparr>"
    by (simp add: constrainSize_def parseAspect_9_16 Math_round_def)
  have feed: "constrainSize Aspect_4_5 540 = Some \<lparr>width = 540, height = 675\<rparr>"
    by (simp add: constrainSize_def parseAspect_4_5 Math_round_def)
  from general tall feed show ?thesis by blast
qed

section \<open>The frame compositor\<close>

lemma paint_fields:
  "f_elapsed (paint m canvas img st dur now) = elapsed_at st now"
  "f_t (paint m canvas img st dur now) = progress (elapsed_at st now) dur"
  "f_zoom (paint m canvas img st dur now) = zoom_at (progress (elapsed_at st now) dur)"
  "f_headAlpha (paint m canvas img st dur now) = headAlpha_at (elapsed_at st now) dur"
  "f_ctaAlpha (paint m canvas img st dur now) = ctaAlpha_at (elapsed_at st now)"
  "f_cta (paint m canvas img st dur now) = None \<longleftrightarrow> \<not> ctaAlpha_at (elapsed_at st now) > 0"
  by (simp_all add: paint_def Let_def)

lemma progress_unit: "0 < dur \<Longrightarrow> 0 \<le> el \<Longrightarrow> 0 \<le> progress el dur \<and> progress el dur \<le> 1"
  by (simp add: progress_def)

lemma progress_mono: "0 < dur \<Longrightarrow> el \<le> el' \<Longrightarrow> progress el dur \<le> progress el' dur"
  by (simp add: progress_def divide_right_mono min.coboundedI1)

subsection \<open>Zoom\<close>

text \<open>
  C6: for every progress \<open>p\<close> in \<open>[0, 1]\<close> the zoom is \<open>1.05 + 0.12 * p\<close>, so it lies
  in \<open>[1.05, 1.17]\<close> and does not decrease as \<open>p\<close> grows; the zoom of a painted frame
  is this function of the frame's progress.
\<close>

theorem zoom_range:
  assumes "0 \<le> p" and "p \<le> 1"
  shows "zoom_at p = 1.05 + 0.12 * p \<and> 1.05 \<le> zoom_at p \<and> zoom_at p \<le> 1.17 \<and>
         (\<forall>q. p \<le> q \<longrightarrow> zoom_at p \<le> zoom_at q) \<and>
         f_zoom (paint m canvas img st dur now) = zoom_at (f_t (paint m canvas img st dur now))"
  using assms by (simp add: zoom_at_def paint_fields)

theorem zoom_range_witness:
  "zoom_at (1 / 2) = 1.05 + 0.12 * (1 / 2) \<and> 1.05 \<le> zoom_at (1 / 2) \<and> zoom_at (1 / 2) \<le> 1.17 \<and>
   zoom_at (1 / 2) \<le> zoom_at 1"
  using zoom_range [of "1 / 2"] by simp

subsection \<open>Headline opacity\<close>

lemma ease_unit: "0 \<le> v \<Longrightarrow> v \<le> 1 \<Longrightarrow> 0 \<le> ease v \<and> ease v \<le> 1"
  by (simp add: ease_def power_le_one)

lemma ease_mono:
  assumes "0 \<le> u" "u \<le> v" "v \<le> 1"
  shows "ease u \<le> ease v"
proof -
  have "(1 - v) ^ 3 \<le> (1 - u) ^ 3"
    using assms by (intro power_mono) simp_all
  then show ?thesis by (simp add: ease_def)
qed

lemma headAlpha_le_one: "0 \<le> el \<Longrightarrow> headAlpha_at el dur \<le> 1"
  using ease_unit [of "min (el / 2) 1"] by (simp add: headAlpha_at_def)

lemma headAlpha_mono:
  assumes "0 < dur" "0 \<le> el" "el \<le> el'"
  shows "headAlpha_at el dur \<le> headAlpha_at el' dur"
proof (cases "progress el' dur < 0.05")
  case True
  with progress_mono [OF assms(1) assms(3)] have "progress el dur < 0.05" by simp
  moreover have "ease (min (el / 2) 1) \<le> ease (min (el' / 2) 1)"
    using assms by (intro ease_mono) (simp_all add: min.coboundedI1)
  ultimately show ?thesis using True by (simp add: headAlpha_at_def)
next
  case False
  then have "headAlpha_at el' dur = 1" by (simp add: headAlpha_at_def)
  with headAlpha_le_one [OF assms(2)] show ?thesis by simp
qed

text \<open>
  C5: for a duration in \<open>[5, 60]\<close> and elapsed seconds \<open>el \<ge> 0\<close>, the headline's
  opacity is 0 at 0 elapsed seconds, 1 from 2 elapsed seconds on, the ease-out cubic
  \<open>1 - (1 - x)\<^sup>3\<close> with \<open>x = min (el / 2) 1\<close> while the progress is below 0.05, and never
  decreases as the elapsed time grows; the opacity of a painted frame is this function
  of the frame's elapsed seconds.
\<close>

theorem headline_opacity:
  assumes "5 \<le> dur" and "dur \<le> 60" and "0 \<le> el"
  shows "headAlpha_at 0 dur = 0 \<and>
         (2 \<le> el \<longrightarrow> headAlpha_at el dur = 1) \<and>
         (progress el dur < 0.05 \<longrightarrow> headAlpha_at el dur = 1 - (1 - min (el / 2) 1) ^ 3) \<and>
         (\<forall>el'. el \<le> el' \<longrightarrow> headAlpha_at el dur \<le> headAlpha_at el' dur) \<and>
         f_headAlpha (paint m canvas img st dur now) =
           headAlpha_at (f_elapsed (paint m canvas img st dur now)) dur"
proof -
  have start: "headAlpha_at 0 dur = 0"
    by (simp add: headAlpha_at_def progress_def ease_def)
  have full: "2 \<le> el \<longrightarrow> headAlpha_at el dur = 1"
    by (simp add: headAlpha_at_def ease_def)
  have curve: "progress el dur < 0.05 \<longrightarrow> headAlpha_at el dur = 1 - (1 - min (el / 2) 1) ^ 3"
    by (simp add: headAlpha_at_def ease_def)
  have mono: "\<forall>el'. el \<le> el' \<longrightarrow> headAlpha_at el dur \<le> headAlpha_at el' dur"
    using assms headAlpha_mono [of dur el] by simp
  have painted: "f_headAlpha (paint m canvas img st dur now) =
           headAlpha_at (f_elapsed (paint m canvas img st dur now)) dur"
    by (simp add: paint_fields)
  from start full curve mono painted show ?thesis by blast
qed

theorem headline_opacity_witness:
  "headAlpha_at 0 30 = 0 \<and> headAlpha_at 3 30 = 1 \<and>
   headAlpha_at 1 30 = 1 - (1 - min (1 / 2) 1) ^ 3 \<and>
   headAlpha_at 1 30 \<le> headAlpha_at 3 30"
proof -
  have small: "progress 1 30 < 0.05" by (simp add: progress_def)
  from headline_opacity [of 30 1] headline_opacity [of 30 3] small
  show ?thesis by simp
qed

subsection \<open>Call-to-action opacity\<close>

lemma ctaAlpha_zero: "el \<le> 12 \<Longrightarrow> ctaAlpha_at el = 0"
  by (simp add: ctaAlpha_at_def max_def)

text \<open>
  C9: the opacity of the call-to-action pill is \<open>min (max ((el - 12) / 1.5) 0) 1\<close> of the
  elapsed seconds \<open>el\<close> alone: it is 0 for every \<open>el < 12\<close>, a painted frame has the same
  value under any two durations, and for a duration in \<open>[5, 12]\<close> no frame within the
  duration paints the pill.
\<close>

theorem cta_opacity_absolute:
  "ctaAlpha_at el = min (max ((el - 12) / 1.5) 0) 1 \<and>
   (el < 12 \<longrightarrow> ctaAlpha_at el = 0) \<and>
   f_ctaAlpha (paint m canvas img st dur now) = ctaAlpha_at (elapsed_at st now) \<and>
   f_ctaAlpha (paint m canvas img st dur now) = f_ctaAlpha (paint m canvas img st dur' now) \<and>
   (5 \<le> dur \<and> dur \<le> 12 \<and> 0 \<le> elapsed_at st now \<and> elapsed_at st now \<le> dur \<longrightarrow>
      f_ctaAlpha (paint m canvas img st dur now) = 0 \<and>
      f_cta (paint m canvas img st dur now) = None)"
proof -
  have formula: "ctaAlpha_at el = min (max ((el - 12) / 1.5) 0) 1"
    by (simp add: ctaAlpha_at_def)
  have early: "el < 12 \<longrightarrow> ctaAlpha_at el = 0"
    by (simp add: ctaAlpha_zero)
  have keyed: "f_ctaAlpha (paint m canvas img st dur now) = ctaAlpha_at (elapsed_at st now)"
    by (simp add: paint_fields)
  have same: "f_ctaAlpha (paint m canvas img st dur now) = f_ctaAlpha (paint m canvas img st dur' now)"
    by (simp add: paint_fields)
  have short: "5 \<le> dur \<and> dur \<le> 12 \<and> 0 \<le> elapsed_at st now \<and> elapsed_at st now \<le> dur \<longrightarrow>
      f_ctaAlpha (paint m canvas img st dur now) = 0 \<and>
      f_cta (paint m canvas img st dur now) = None"
    by (simp add: paint_fields ctaAlpha_zero)
  from formula early keyed same short show ?thesis by blast
qed

theorem cta_opacity_absolute_witness:
  "ctaAlpha_at 11 = 0 \<and>
   f_cta (paint unit_font \<lparr>width = 540, height = 960\<rparr> photo 1000 10 11000) = None"
proof -
  have inside: "(5::real) \<le> 10 \<and> (10::real) \<le> 12 \<and> 0 \<le> elapsed_at 1000 11000 \<and>
      elapsed_at 1000 11000 \<le> 10"
    by (simp add: elapsed_at_def)
  from cta_opacity_absolute [of 11 unit_font "\<lparr>width = 540, height = 960\<rparr>" photo 1000 10 11000 10]
    inside
  show ?thesis by simp
qed

subsection \<open>Cover fit\<close>

text \<open>
  The drawn image is never smaller than the frame: the scale is the larger of the two
  ratios, times a zoom of at least 1.
\<close>

lemma paint_size_covers:
  assumes img: "0 < naturalWidth img" "0 < naturalHeight img"
    and canvas: "0 \<le> width canvas" "0 \<le> height canvas"
    and time: "0 < dur" "st \<le> now"
  shows "width canvas \<le> f_drawW (paint m canvas img st dur now) \<and>
         height canvas \<le> f_drawH (paint m canvas img st dur now)"
proof -
  define z where "z = zoom_at (progress (elapsed_at st now) dur)"
  define k where "k = max (width canvas / naturalWidth img) (height canvas / naturalHeight img)"
  have "0 \<le> elapsed_at st now" using time by (simp add: elapsed_at_def)
  with progress_unit [OF time(1)] have "0 \<le> progress (elapsed_at st now) dur" by simp
  then have z: "1 \<le> z" by (simp add: z_def zoom_at_def)
  have k0: "0 \<le> k" using img canvas by (simp add: k_def le_max_iff_disj)
  have "width canvas / naturalWidth img \<le> k" by (simp add: k_def)
  then have kw: "width canvas \<le> naturalWidth img * k"
    using img by (simp add: pos_divide_le_eq mult.commute)
  have "height canvas / naturalHeight img \<le> k" by (simp add: k_def)
  then have kh: "height canvas \<le> naturalHeight img * k"
    using img by (simp add: pos_divide_le_eq mult.commute)
  have grow: "v * k \<le> v * (k * z)" if "0 < v" for v
  proof -
    have "k * 1 \<le> k * z" using k0 z by (intro mult_left_mono) simp_all
    with that show ?thesis by simp
  qed
  have "f_drawW (paint m canvas img st dur now) = naturalWidth img * (k * z)"
    by (simp add: paint_def Let_def k_def z_def)
  moreover have "f_drawH (paint m canvas img st dur now) = naturalHeight img * (k * z)"
    by (simp add: paint_def Let_def k_def z_def)
  ultimately show ?thesis
    using kw kh grow [OF img(1)] grow [OF img(2)] by simp
qed

section \<open>Word wrap\<close>

lemma split_on_nonempty: "split_on c s \<noteq> []"
  by (induction s) (auto split: list.splits)

lemma split_on_no_sep: "w \<in> set (split_on c s) \<Longrightarrow> c \<notin> set w"
proof (induction s arbitrary: w)
  case Nil
  then show ?case by simp
next
  case (Cons a as)
  then show ?case
    by (cases "split_on c as") (auto simp: split_on_nonempty split: if_splits)
qed

lemma split_on_word: "c \<notin> set w \<Longrightarrow> split_on c (w @ c # s) = w # split_on c s"
  by (induction w) auto

lemma split_on_spaced:
  "\<forall>w\<in>set g. CHR '' '' \<notin> set w \<Longrightarrow> split_on CHR '' '' (spaced g) = g @ [[]]"
  by (induction g) (simp_all add: spaced_def split_on_word)

lemma line_words_spaced: "\<forall>w\<in>set g. CHR '' '' \<notin> set w \<Longrightarrow> line_words (spaced g) = g"
  by (simp add: line_words_def split_on_spaced)

lemma spaced_snoc: "spaced (g @ [w]) = spaced g @ w @ '' ''"
  by (simp add: spaced_def)

lemma wrapLoop_groups:
  assumes "\<forall>w\<in>set (g @ rest). CHR '' '' \<notin> set w"
    and "(n = 0) = (g = [])"
    and "g \<noteq> [] \<or> rest \<noteq> []"
    and "m (spaced g) \<le> mw \<or> length g \<le> 1"
  shows "\<exists>groups. map fst (wrapLoop m x mw lh n rest (spaced g) y) = map spaced groups \<and>
           concat groups = g @ rest \<and> [] \<notin> set groups \<and>
           (\<forall>G\<in>set groups. m (spaced G) \<le> mw \<or> length G \<le> 1) \<and>
           (\<forall>G\<in>set groups. \<forall>w\<in>set G. CHR '' '' \<notin> set w)"
  using assms
proof (induction rest arbitrary: g n y)
  case Nil
  then show ?case by (intro exI [of _ "[g]"]) simp
next
  case (Cons w ws)
  show ?case
  proof (cases "m (spaced g @ w @ '' '') > mw \<and> n > 0")
    case True
    have "\<exists>groups. map fst (wrapLoop m x mw lh (n + 1) ws (spaced [w]) (y + lh)) = map spaced groups \<and>
           concat groups = [w] @ ws \<and> [] \<notin> set groups \<and>
           (\<forall>G\<in>set groups. m (spaced G) \<le> mw \<or> length G \<le> 1) \<and>
           (\<forall>G\<in>set groups. \<forall>w\<in>set G. CHR '' '' \<notin> set w)"
      using Cons.prems by (intro Cons.IH) simp_all
    then obtain groups where gr:
      "map fst (wrapLoop m x mw lh (n + 1) ws (spaced [w]) (y + lh)) = map spaced groups"
      "concat groups = [w] @ ws" "[] \<notin> set groups"
      "\<forall>G\<in>set groups. m (spaced G) \<le> mw \<or> length G \<le> 1"
      "\<forall>G\<in>set groups. \<forall>w\<in>set G. CHR '' '' \<notin> set w"
      by blast
    have "spaced [w] = w @ '' ''" by (simp add: spaced_def)
    with True gr Cons.prems show ?thesis
      by (intro exI [of _ "g # groups"]) (auto simp: Let_def)
  next
    case False
    have "\<exists>groups. map fst (wrapLoop m x mw lh (n + 1) ws (spaced (g @ [w])) y) = map spaced groups \<and>
           concat groups = (g @ [w]) @ ws \<and> [] \<notin> set groups \<and>
           (\<forall>G\<in>set groups. m (spaced G) \<le> mw \<or> length G \<le> 1) \<and>
           (\<forall>G\<in>set groups. \<forall>w\<in>set G. CHR '' '' \<notin> set w)"
      using Cons.prems False by (intro Cons.IH) (auto simp: spaced_snoc)
    with False show ?thesis by (auto simp: spaced_snoc Let_def)
  qed
qed

lemma wrapLines_groups:
  "\<exists>groups. wrapLines m str mw = map spaced groups \<and>
     concat groups = split_on CHR '' '' str \<and> [] \<notin> set groups \<and>
     (\<forall>G\<in>set groups. m (spaced G) \<le> mw \<or> length G \<le> 1) \<and>
     (\<forall>G\<in>set groups. \<forall>w\<in>set G. CHR '' '' \<notin> set w)"
proof -
  have "spaced [] = []" by (simp add: spaced_def)
  with wrapLoop_groups [of "[]" "split_on CHR '' '' str" 0 m mw 0 0 0]
  show ?thesis by (simp add: wrapLines_def wrapText_def split_on_no_sep split_on_nonempty)
qed

lemma wrapLoop_lines:
  "map fst (wrapLoop m x mw lh n ws line y) = map fst (wrapLoop m x' mw lh' n ws line y')"
  by (induction ws arbitrary: n line y y') (simp_all add: Let_def)

lemma wrapText_lines: "map fst (wrapText m str x y mw lh) = wrapLines m str mw"
  unfolding wrapText_def wrapLines_def by (rule wrapLoop_lines)

lemma spaced_around: "w \<in> set G \<Longrightarrow> \<exists>a c. spaced G = a @ (w @ '' '') @ c"
proof -
  assume "w \<in> set G"
  then obtain G1 G2 where "G = G1 @ w # G2" by (auto simp: in_set_conv_decomp)
  then have "spaced G = spaced G1 @ (w @ '' '') @ spaced G2" by (simp add: spaced_def)
  then show ?thesis by blast
qed

text \<open>
  C3, as the code has it: the lines painted do not depend on where they are painted; every
  painted line is a run of whole words of the text, each
  followed by one blank, the lines together holding the words of the text in order, none
  split; a line (measured as painted, with its last blank) is at most \<open>maxWidth\<close> wide
  unless it holds a single word; and under a measure that never makes a piece of a string
  wider than the string, a word that with its blank is wider than \<open>maxWidth\<close> stands
  alone on its line.
\<close>

theorem wrap_lines_whole_words:
  "map fst (wrapText m str x y mw lh) = wrapLines m str mw \<and>
   concat (map line_words (wrapLines m str mw)) = split_on CHR '' '' str \<and>
   (\<forall>l\<in>set (wrapLines m str mw).
      l = spaced (line_words l) \<and> (m l \<le> mw \<or> length (line_words l) = 1)) \<and>
   ((\<forall>a b c. m b \<le> m (a @ b @ c)) \<longrightarrow>
      (\<forall>l\<in>set (wrapLines m str mw). \<forall>w\<in>set (line_words l).
         mw < m (w @ '' '') \<longrightarrow> line_words l = [w]))"
proof -
  obtain groups where gr:
    "wrapLines m str mw = map spaced groups"
    "concat groups = split_on CHR '' '' str" "[] \<notin> set groups"
    "\<forall>G\<in>set groups. m (spaced G) \<le> mw \<or> length G \<le> 1"
    "\<forall>G\<in>set groups. \<forall>w\<in>set G. CHR '' '' \<notin> set w"
    using wrapLines_groups [of m str mw] by blast
  have words: "line_words (spaced G) = G" if "G \<in> set groups" for G
    using that gr(5) by (simp add: line_words_spaced)
  have "map line_words (wrapLines m str mw) = groups"
    using words by (simp add: gr(1) map_idI)
  then have whole: "concat (map line_words (wrapLines m str mw)) = split_on CHR '' '' str"
    by (simp add: gr(2))
  have one: "length G = 1" if "G \<in> set groups" "\<not> m (spaced G) \<le> mw" for G
  proof -
    from that gr(3) have "G \<noteq> []" by auto
    moreover from that gr(4) have "length G \<le> 1" by auto
    ultimately show ?thesis by (cases G) simp_all
  qed
  have fits: "\<forall>l\<in>set (wrapLines m str mw).
      l = spaced (line_words l) \<and> (m l \<le> mw \<or> length (line_words l) = 1)"
    using words one by (auto simp: gr(1))
  have alone: "line_words l = [w]"
    if mono: "\<forall>a b c. m b \<le> m (a @ b @ c)" and l: "l \<in> set (wrapLines m str mw)"
      and w: "w \<in> set (line_words l)" and wide: "mw < m (w @ '' '')" for l w
  proof -
    from l obtain G where G: "G \<in> set groups" "l = spaced G" by (auto simp: gr(1))
    with w words have "w \<in> set G" by simp
    then obtain a c where "spaced G = a @ (w @ '' '') @ c" using spaced_around by blast
    with mono have "m (w @ '' '') \<le> m (spaced G)" by metis
    with wide have "\<not> m (spaced G) \<le> mw" by simp
    with one G have "length G = 1" by simp
    with \<open>w \<in> set G\<close> have "G = [w]" by (cases G) simp_all
    with G words show ?thesis by simp
  qed
  from wrapText_lines [of m str x y mw lh] whole fits alone show ?thesis by blast
qed

theorem wrap_lines_whole_words_witness:
  "wrapLines unit_width ''abcd e'' 3 = [''abcd '', ''e ''] \<and>
   concat (map line_words [''abcd '', ''e '']) = split_on CHR '' '' ''abcd e'' \<and>
   ''abcd '' = spaced (line_words ''abcd '') \<and> length (line_words ''abcd '') = 1 \<and>
   unit_width ''e '' \<le> 3 \<and> line_words ''abcd '' = [''abcd'']"
proof -
  have lines: "wrapLines unit_width ''abcd e'' 3 = [''abcd '', ''e '']"
    by (simp add: wrapLines_def wrapText_def unit_width_def)
  have mono: "\<forall>a b c. unit_width b \<le> unit_width (a @ b @ c)"
    by (simp add: unit_width_def)
  have wide: "3 < unit_width (''abcd'' @ '' '')"
    by (simp add: unit_width_def)
  from wrap_lines_whole_words [where m = unit_width and str = "''abcd e''" and mw = 3]
    lines mono wide
  show ?thesis by (simp add: unit_width_def line_words_def spaced_def)
qed

text \<open>
  C3 as stated fails: with every character one unit wide and \<open>maxWidth = 3\<close>, the text
  \<open>abc\<close> is painted as the line \<open>abc\<close> plus a blank, 4 units wide, and its single word
  is 3 units wide, not wider than \<open>maxWidth\<close>.
\<close>

theorem single_word_line_too_wide:
  "map fst (wrapText unit_width ''abc'' 16 800 3 28) = [''abc ''] \<and>
   line_words ''abc '' = [''abc''] \<and>
   3 < unit_width ''abc '' \<and> \<not> 3 < unit_width ''abc''"
  by (simp add: wrapText_def unit_width_def line_words_def)

text \<open>
  C4, as the code has it: the empty text is painted as exactly one line, and that line is
  one blank: the single empty word of the split, followed by the blank every word gets.
\<close>

theorem wrapText_empty:
  "wrapText m [] x y mw lh = [('' '', x, y)] \<and> wrapLines m [] mw = ['' '']"
  by (simp add: wrapText_def wrapLines_def)

text \<open>C4 as stated fails: the one line painted for the empty text is not the empty string.\<close>

theorem wrapText_empty_not_empty_line:
  "map fst (wrapText unit_width [] 16 800 508 28) \<noteq> [[]]"
  by (simp add: wrapText_def)


section \<open>The page handlers\<close>

text \<open>
  C10: choosing a file stores the new object URL as the image URL and clears the
  download URL; the aspect, the duration and the recording flag stay as they were.
\<close>

theorem handleFile_effect:
  "imageUrl (handleFile s) = Some (urlCount s) \<and> downloadUrl (handleFile s) = None \<and>
   aspect (handleFile s) = aspect s \<and> durationSec (handleFile s) = durationSec s \<and>
   isRecording (handleFile s) = isRecording s"
  by (simp add: handleFile_def Let_def)

lemma timer_delay_in_range:
  assumes "0 \<le> v" "v \<le> 2147483647"
  shows "timer_delay v = of_int \<lfloor>v\<rfloor>"
proof -
  have low: "0 \<le> \<lfloor>v\<rfloor>" using assms(1) by simp
  have "\<lfloor>v\<rfloor> \<le> \<lfloor>2147483647::real\<rfloor>" using assms(2) by (rule floor_mono)
  then have high: "\<lfloor>v\<rfloor> \<le> 2147483647" by simp
  from low high have "\<lfloor>v\<rfloor> mod 4294967296 = \<lfloor>v\<rfloor>" by simp
  with low high assms(1) show ?thesis
    by (simp add: timer_delay_def ToInt32_def Let_def)
qed

lemma timer_delay_beyond_range: "timer_delay 3000000000 = 0"
  by (simp add: timer_delay_def ToInt32_def Let_def)

lemma startPreview_kept:
  "recorders (startPreview s) = recorders s"
  "timeouts (startPreview s) = timeouts s"
  "stopCalls (startPreview s) = stopCalls s"
  "stopEvents (startPreview s) = stopEvents s"
  "clock (startPreview s) = clock s"
  "isRecording (startPreview s) = isRecording s"
  "recorderRef (startPreview s) = recorderRef s"
  "durationSec (startPreview s) = durationSec s"
  "canvasRef (startPreview s) = canvasRef s"
  "imageRef (startPreview s) = imageRef s"
  "vp9Supported (startPreview s) = vp9Supported s"
  by (simp_all add: startPreview_def requestFrame_def cancelIfSet_def Let_def split: option.splits)

lemma startRecording_started:
  assumes "canvasRef s \<noteq> None" "imageRef s \<noteq> None" "vp9Supported s"
  shows "\<exists>s'. startRecording s = Inr s' \<and> isRecording s' \<and>
           recorders s' = recorders s @ [recording] \<and>
           recorderRef s' = Some (length (recorders s)) \<and>
           timeouts s' =
             timeouts s @ [(clock s + timer_delay (durationSec s * 1000), length (recorders s))] \<and>
           stopCalls s' = stopCalls s \<and> clock s' = clock s \<and> durationSec s' = durationSec s"
  using assms by (simp add: startRecording_def Let_def startPreview_kept)

lemma loaded_page_fields:
  "canvasRef loaded_page = Some \<lparr>width = 540, height = 960\<rparr>"
  "imageRef loaded_page = Some photo"
  "vp9Supported loaded_page"
  "recorders loaded_page = []"
  "timeouts loaded_page = []"
  "stopCalls loaded_page = []"
  "clock loaded_page = 0"
  "isRecording loaded_page = False"
  "durationSec loaded_page = 60"
  by (simp_all add: loaded_page_def imageLoaded_def imageMounted_def startPreview_kept handleFile_def
      initial_page_def constrainSize_def parseAspect_def Number_def digit_value_def Math_round_def)

lemma setDurationSec_fields:
  "canvasRef (setDurationSec v s) = canvasRef s"
  "imageRef (setDurationSec v s) = imageRef s"
  "vp9Supported (setDurationSec v s) = vp9Supported s"
  "recorders (setDurationSec v s) = recorders s"
  "timeouts (setDurationSec v s) = timeouts s"
  "stopCalls (setDurationSec v s) = stopCalls s"
  "clock (setDurationSec v s) = clock s"
  "durationSec (setDurationSec v s) = v"
  by (simp_all add: setDurationSec_def)

subsection \<open>The first painted frame\<close>

lemma startPreview_started:
  assumes "canvasRef s \<noteq> None" "imageRef s \<noteq> None"
  shows "startTimeRef (startPreview s) = 0"
    and "loopDurationSec (startPreview s) = durationSec s"
  using assms by (auto simp: startPreview_def requestFrame_def Let_def)

lemma loaded_page_startTime:
  "startTimeRef loaded_page = 0"
  "loopDurationSec loaded_page = 60"
  by (simp_all add: loaded_page_def imageLoaded_def imageMounted_def startPreview_started
      handleFile_def initial_page_def constrainSize_def parseAspect_def Number_def
      digit_value_def)

lemma first_loop_paints:
  "painted (loop m ts loaded_page) =
     Some (paint m \<lparr>width = 540, height = 960\<rparr> photo (if ts = 0 then 0 else ts) 60 ts)"
  by (simp add: loop_def drawFrame_def requestFrame_def Let_def loaded_page_fields
      loaded_page_startTime)

text \<open>
  C1: the drawn rectangle \<open>[dx, dx + drawW] \<times> [dy, dy + drawH]\<close> should contain the frame
  at every progress. It does not in the first frame painted after a photo of 1080 by 1920
  pixels has been loaded into the 540 by 960 canvas: the progress is 0, the zoom 1.05, the
  vertical pan \<open>0.04 * cos 0 = 0.04\<close> of the height, and the image is drawn from
  \<open>dy = 14\<close> down, so the rows 0 to 13 of the frame keep the black fill.
\<close>

theorem first_frame_leaves_top_rows_uncovered:
  "painted (loop unit_font 1000 loaded_page) =
     Some (paint unit_font \<lparr>width = 540, height = 960\<rparr> photo 1000 60 1000) \<and>
   f_t (paint unit_font \<lparr>width = 540, height = 960\<rparr> photo 1000 60 1000) = 0 \<and>
   f_dx (paint unit_font \<lparr>width = 540, height = 960\<rparr> photo 1000 60 1000) = - 13 \<and>
   f_dy (paint unit_font \<lparr>width = 540, height = 960\<rparr> photo 1000 60 1000) = 14 \<and>
   f_drawW (paint unit_font \<lparr>width = 540, height = 960\<rparr> photo 1000 60 1000) = 567 \<and>
   f_drawH (paint unit_font \<lparr>width = 540, height = 960\<rparr> photo 1000 60 1000) = 1008"
proof -
  have first: "painted (loop unit_font 1000 loaded_page) =
     Some (paint unit_font \<lparr>width = 540, height = 960\<rparr> photo 1000 60 1000)"
    by (simp add: first_loop_paints)
  have rect: "f_t (paint unit_font \<lparr>width = 540, height = 960\<rparr> photo 1000 60 1000) = 0 \<and>
   f_dx (paint unit_font \<lparr>width = 540, height = 960\<rparr> photo 1000 60 1000) = - 13 \<and>
   f_dy (paint unit_font \<lparr>width = 540, height = 960\<rparr> photo 1000 60 1000) = 14 \<and>
   f_drawW (paint unit_font \<lparr>width = 540, height = 960\<rparr> photo 1000 60 1000) = 567 \<and>
   f_drawH (paint unit_font \<lparr>width = 540, height = 960\<rparr> photo 1000 60 1000) = 1008"
    by (simp add: paint_def Let_def elapsed_at_def progress_def zoom_at_def panX_at_def
        panY_at_def Math_round_def photo_def)
  from first rect show ?thesis by blast
qed

subsection \<open>Starting a recording\<close>

text \<open>
  C2, as the code has it: \<^verbatim>\<open>startRecording\<close> tests only that the canvas and the image
  are there. When one is missing it returns with the state unchanged and no error; when
  both are there and the browser supports the recorder, it starts recording whatever the
  duration is, and schedules a stop of the new recorder; when \<open>durationSec * 1000\<close> lies
  between 0 and 2147483647, the stop is due that many whole milliseconds later.
\<close>

theorem startRecording_checks_refs_only:
  "(canvasRef s = None \<or> imageRef s = None \<longrightarrow> startRecording s = Inr s) \<and>
   (canvasRef s \<noteq> None \<and> imageRef s \<noteq> None \<and> vp9Supported s \<longrightarrow>
      (\<exists>s'. startRecording s = Inr s' \<and> isRecording s' \<and>
         recorders s' = recorders s @ [recording] \<and>
         (\<exists>due. timeouts s' = timeouts s @ [(due, length (recorders s))]) \<and>
         (0 \<le> durationSec s * 1000 \<and> durationSec s * 1000 \<le> 2147483647 \<longrightarrow>
            timeouts s' =
              timeouts s @
                [(clock s + of_int \<lfloor>durationSec s * 1000\<rfloor>, length (recorders s))])))"
proof -
  have missing: "canvasRef s = None \<or> imageRef s = None \<longrightarrow> startRecording s = Inr s"
    by (simp add: startRecording_def)
  have present: "\<exists>s'. startRecording s = Inr s' \<and> isRecording s' \<and>
         recorders s' = recorders s @ [recording] \<and>
         (\<exists>due. timeouts s' = timeouts s @ [(due, length (recorders s))]) \<and>
         (0 \<le> durationSec s * 1000 \<and> durationSec s * 1000 \<le> 2147483647 \<longrightarrow>
            timeouts s' =
              timeouts s @
                [(clock s + of_int \<lfloor>durationSec s * 1000\<rfloor>, length (recorders s))])"
    if ready: "canvasRef s \<noteq> None" "imageRef s \<noteq> None" "vp9Supported s"
  proof -
    from startRecording_started [OF ready] obtain s' where s':
      "startRecording s = Inr s'" "isRecording s'" "recorders s' = recorders s @ [recording]"
      "timeouts s' =
         timeouts s @ [(clock s + timer_delay (durationSec s * 1000), length (recorders s))]"
      by blast
    have "timer_delay (durationSec s * 1000) = of_int \<lfloor>durationSec s * 1000\<rfloor>"
      if "0 \<le> durationSec s * 1000" "durationSec s * 1000 \<le> 2147483647"
      using that by (rule timer_delay_in_range)
    with s' show ?thesis by auto
  qed
  from missing present show ?thesis by blast
qed

theorem startRecording_checks_refs_only_witness:
  "map_sum id isRecording (startRecording (setDurationSec 30 loaded_page)) = Inr True \<and>
   map_sum id timeouts (startRecording (setDurationSec 30 loaded_page)) = Inr [(30000, 0)] \<and>
   startRecording initial_page = Inr initial_page"
proof -
  have none: "imageRef initial_page = None" by (simp add: initial_page_def)
  from startRecording_checks_refs_only [of "setDurationSec 30 loaded_page"]
    startRecording_checks_refs_only [of initial_page] none
  show ?thesis by (auto simp: loaded_page_fields setDurationSec_fields)
qed

text \<open>
  C2 as stated fails: with a duration of 3 seconds, outside \<open>[5, 60]\<close>, and the image
  loaded, \<^verbatim>\<open>startRecording\<close> sets the recording flag, starts the recorder and schedules
  the stop 3000 milliseconds later.
\<close>

theorem short_duration_is_recorded:
  "map_sum id isRecording (startRecording (setDurationSec 3 loaded_page)) = Inr True \<and>
   map_sum id recorders (startRecording (setDurationSec 3 loaded_page)) = Inr [recording] \<and>
   map_sum id timeouts (startRecording (setDurationSec 3 loaded_page)) = Inr [(3000, 0)]"
  using startRecording_started [of "setDurationSec 3 loaded_page"]
  by (auto simp: loaded_page_fields setDurationSec_fields timer_delay_def ToInt32_def)

subsection \<open>The scheduled stop\<close>

text \<open>
  Beyond the range of the timer the delay is not the duration: with 3000000 seconds typed
  into the duration input, the delay of 3000000000 milliseconds wraps to a negative number,
  the callback is due at once, and its \<^verbatim>\<open>stop()\<close> is the first on the recorder.
\<close>

lemma huge_duration_due_at_once:
  "map_sum id timeouts (startRecording (setDurationSec 3000000 loaded_page)) = Inr [(0, 0)] \<and>
   map_sum id (\<lambda>s1. stopCalls (elapse 0 s1))
     (startRecording (setDurationSec 3000000 loaded_page)) = Inr [(0, recording)]"
proof -
  obtain s1 where s1: "startRecording (setDurationSec 3000000 loaded_page) = Inr s1"
    "recorders s1 = [recording]" "timeouts s1 = [(0, 0)]" "stopCalls s1 = []" "clock s1 = 0"
    using startRecording_started [of "setDurationSec 3000000 loaded_page"]
    by (auto simp: loaded_page_fields setDurationSec_fields timer_delay_def ToInt32_def)
  then show ?thesis
    by (simp add: elapse_def Let_def recorder_stop_def)
qed

lemma recorder_stop_kept:
  "timeouts (recorder_stop q s) = timeouts s"
  "clock (recorder_stop q s) = clock s"
  "recorderRef (recorder_stop q s) = recorderRef s"
  "length (recorders (recorder_stop q s)) = length (recorders s)"
  by (simp_all add: recorder_stop_def Let_def)

lemma recorder_stop_other:
  assumes "q \<noteq> r"
  shows "recorders (recorder_stop q s) ! r = recorders s ! r"
    and "filter (\<lambda>c. fst c = r) (stopCalls (recorder_stop q s)) =
         filter (\<lambda>c. fst c = r) (stopCalls s)"
  using assms by (simp_all add: recorder_stop_def Let_def)

lemma recorder_stop_inactive:
  assumes "r < length (recorders s)" "recorders s ! r = inactive"
  shows "recorder_stop r s = s\<lparr>stopCalls := stopCalls s @ [(r, inactive)]\<rparr>"
  using assms by (simp add: recorder_stop_def Let_def)

lemma recorder_stop_recording:
  assumes "r < length (recorders s)" "recorders s ! r = recording"
  shows "stopCalls (recorder_stop r s) = stopCalls s @ [(r, recording)]"
    and "recorders (recorder_stop r s) ! r = inactive"
  using assms by (simp_all add: recorder_stop_def Let_def)

lemma stops_kept:
  "timeouts (fold (\<lambda>e. recorder_stop (snd e)) es s) = timeouts s"
  "clock (fold (\<lambda>e. recorder_stop (snd e)) es s) = clock s"
  "recorderRef (fold (\<lambda>e. recorder_stop (snd e)) es s) = recorderRef s"
  "length (recorders (fold (\<lambda>e. recorder_stop (snd e)) es s)) = length (recorders s)"
  by (induction es arbitrary: s) (simp_all add: recorder_stop_kept)

lemma stops_other:
  assumes "\<forall>e\<in>set es. snd e \<noteq> r"
  shows "recorders (fold (\<lambda>e. recorder_stop (snd e)) es s) ! r = recorders s ! r"
    and "filter (\<lambda>c. fst c = r) (stopCalls (fold (\<lambda>e. recorder_stop (snd e)) es s)) =
         filter (\<lambda>c. fst c = r) (stopCalls s)"
  using assms by (induction es arbitrary: s) (simp_all add: recorder_stop_other)

lemma elapse_kept:
  "recorderRef (elapse dt s) = recorderRef s"
  "length (recorders (elapse dt s)) = length (recorders s)"
  "clock (elapse dt s) = clock s + dt"
  "timeouts (elapse dt s) = filter (\<lambda>e. \<not> fst e \<le> clock s + dt) (timeouts s)"
  by (simp_all add: elapse_def Let_def stops_kept)

lemma elapse_other:
  assumes "\<forall>e\<in>set (timeouts s). fst e \<le> clock s + dt \<longrightarrow> snd e \<noteq> r"
  shows "recorders (elapse dt s) ! r = recorders s ! r"
    and "filter (\<lambda>c. fst c = r) (stopCalls (elapse dt s)) = filter (\<lambda>c. fst c = r) (stopCalls s)"
  using assms by (simp_all add: elapse_def Let_def stops_other)


lemma known_timeouts_kept:
  "known_timeouts initial_page"
  "known_timeouts loaded_page"
  "known_timeouts s \<Longrightarrow> known_timeouts (handleFile s)"
  "known_timeouts s \<Longrightarrow> known_timeouts (setDurationSec v s)"
  "known_timeouts s \<Longrightarrow> known_timeouts (startPreview s)"
  "known_timeouts s \<Longrightarrow> known_timeouts (stopPreview s)"
  "known_timeouts s \<Longrightarrow> known_timeouts (stopRecording s)"
  "known_timeouts s \<Longrightarrow> known_timeouts (elapse dt s)"
  "known_timeouts s \<Longrightarrow> known_timeouts (dispatchStop s)"
  "known_timeouts s \<Longrightarrow> known_timeouts (loop m ts s)"
  "known_timeouts s \<Longrightarrow> known_timeouts (ondataavailable sz s)"
  "known_timeouts s \<Longrightarrow> known_timeouts (imageLoaded img s)"
  "known_timeouts s \<Longrightarrow> known_timeouts (imageMounted s)"
  by (auto simp: known_timeouts_def loaded_page_fields initial_page_def handleFile_def
      setDurationSec_def startPreview_kept stopPreview_def cancelIfSet_def stopRecording_def
      recorder_stop_kept elapse_kept dispatchStop_def onstop_def Let_def loop_def
      drawFrame_def requestFrame_def ondataavailable_def imageLoaded_def imageMounted_def
      split: option.splits list.splits)

lemma known_timeouts_startRecording:
  assumes "known_timeouts s" "startRecording s = Inr s'"
  shows "known_timeouts s'"
proof (cases "canvasRef s = None \<or> imageRef s = None")
  case True
  with assms show ?thesis by (simp add: startRecording_def)
next
  case False
  with assms(2) have "vp9Supported s"
    by (auto simp: startRecording_def split: if_splits)
  with False startRecording_started [of s] assms show ?thesis
    by (auto simp: known_timeouts_def)
qed

text \<open>
  C8: a recording is started in a state whose pending callbacks hold existing recorders,
  with \<open>durationSec * 1000\<close> at most 2147483647, so that the scheduled callback is due
  after the whole milliseconds of the duration; it is stopped by hand \<open>dt1\<close> milliseconds
  after the start, before the callback is due. The manual stop calls \<^verbatim>\<open>stop()\<close> on the
  recording recorder and leaves it inactive, and the scheduled callback is still pending;
  when the duration is over the callback runs and calls \<^verbatim>\<open>stop()\<close> once more, on the
  inactive recorder: the calls on this recorder are two, the second on an inactive
  recorder. No manual stop removes a pending callback.
\<close>

theorem timeout_survives_manual_stop:
  assumes ready: "canvasRef s \<noteq> None" "imageRef s \<noteq> None" "vp9Supported s"
    and older: "known_timeouts s"
    and started: "startRecording s = Inr s1"
    and range: "durationSec s * 1000 \<le> 2147483647"
    and early: "0 \<le> dt1" "dt1 < of_int \<lfloor>durationSec s * 1000\<rfloor>"
    and late: "of_int \<lfloor>durationSec s * 1000\<rfloor> \<le> dt1 + dt2"
  shows "timeouts (stopRecording s0) = timeouts s0 \<and>
         (clock s + of_int \<lfloor>durationSec s * 1000\<rfloor>, length (recorders s))
           \<in> set (timeouts (stopRecording (elapse dt1 s1))) \<and>
         recorders (stopRecording (elapse dt1 s1)) ! length (recorders s) = inactive \<and>
         stopCalls (stopRecording (elapse dt1 s1)) =
           stopCalls (elapse dt1 s1) @ [(length (recorders s), recording)] \<and>
         filter (\<lambda>c. fst c = length (recorders s))
             (stopCalls (elapse dt2 (stopRecording (elapse dt1 s1)))) =
           filter (\<lambda>c. fst c = length (recorders s)) (stopCalls s) @
             [(length (recorders s), recording), (length (recorders s), inactive)] \<and>
         (clock s + of_int \<lfloor>durationSec s * 1000\<rfloor>, length (recorders s))
           \<notin> set (timeouts (elapse dt2 (stopRecording (elapse dt1 s1))))"
proof -
  define r where "r = length (recorders s)"
  define due where "due = clock s + of_int \<lfloor>durationSec s * 1000\<rfloor>"
  define s2 where "s2 = elapse dt1 s1"
  define s3 where "s3 = stopRecording s2"
  define s4 where "s4 = elapse dt2 s3"
  have kept: "timeouts (stopRecording s0) = timeouts s0"
    by (simp add: stopRecording_def recorder_stop_kept split: option.splits)
  from early have "(0::real) < of_int \<lfloor>durationSec s * 1000\<rfloor>" by linarith
  moreover have "of_int \<lfloor>durationSec s * 1000\<rfloor> \<le> durationSec s * 1000"
    by (rule of_int_floor_le)
  ultimately have "0 \<le> durationSec s * 1000" by linarith
  from timer_delay_in_range [OF this range]
  have pos: "timer_delay (durationSec s * 1000) = of_int \<lfloor>durationSec s * 1000\<rfloor>" .
  from startRecording_started [OF ready] started pos
  have s1: "recorders s1 = recorders s @ [recording]" "recorderRef s1 = Some r"
    "timeouts s1 = timeouts s @ [(due, r)]" "stopCalls s1 = stopCalls s" "clock s1 = clock s"
    by (simp_all add: r_def due_def)
  have old: "snd e \<noteq> r" if "e \<in> set (timeouts s)" for e
    using that older by (auto simp: r_def known_timeouts_def)
  have "\<forall>e\<in>set (timeouts s1). fst e \<le> clock s1 + dt1 \<longrightarrow> snd e \<noteq> r"
    using old early by (auto simp: s1 due_def)
  from elapse_other [OF this]
  have s2_r: "recorders s2 ! r = recording"
    and s2_calls: "filter (\<lambda>c. fst c = r) (stopCalls s2) = filter (\<lambda>c. fst c = r) (stopCalls s)"
    by (simp_all add: s2_def s1 r_def)
  have s2: "recorderRef s2 = Some r" "length (recorders s2) = Suc r" "clock s2 = clock s + dt1"
    "timeouts s2 = filter (\<lambda>e. \<not> fst e \<le> clock s + dt1) (timeouts s) @ [(due, r)]"
    using early by (simp_all add: s2_def elapse_kept s1 r_def due_def)
  have s3_eq: "s3 = recorder_stop r s2"
    by (simp add: s3_def stopRecording_def s2)
  have s3: "timeouts s3 = timeouts s2" "clock s3 = clock s2" "length (recorders s3) = Suc r"
    by (simp_all add: s3_eq recorder_stop_kept s2)
  have s3_calls: "stopCalls s3 = stopCalls s2 @ [(r, recording)]"
    and s3_r: "recorders s3 ! r = inactive"
    unfolding s3_eq using s2 s2_r by (simp_all add: recorder_stop_recording)
  define now2 where "now2 = clock s3 + dt2"
  define es1 where
    "es1 = filter (\<lambda>e. fst e \<le> now2) (filter (\<lambda>e. \<not> fst e \<le> clock s + dt1) (timeouts s))"
  define base where
    "base = s3\<lparr>clock := now2, timeouts := filter (\<lambda>e. \<not> fst e \<le> now2) (timeouts s3)\<rparr>"
  define mid where "mid = fold (\<lambda>e. recorder_stop (snd e)) es1 base"
  have due_now: "due \<le> now2"
    using late by (simp add: now2_def s3 s2 due_def)
  then have "filter (\<lambda>e. fst e \<le> now2) (timeouts s3) = es1 @ [(due, r)]"
    by (simp add: s3 s2 es1_def)
  then have s4_eq: "s4 = recorder_stop r mid"
    by (simp add: s4_def elapse_def Let_def now2_def [symmetric] base_def [symmetric] mid_def)
  have es1_old: "\<forall>e\<in>set es1. snd e \<noteq> r"
    using old by (auto simp: es1_def)
  have mid_r: "recorders mid ! r = inactive"
    and mid_calls: "filter (\<lambda>c. fst c = r) (stopCalls mid) = filter (\<lambda>c. fst c = r) (stopCalls s3)"
    using stops_other [OF es1_old, of base] by (simp_all add: mid_def base_def s3_r)
  have mid_len: "r < length (recorders mid)"
    by (simp add: mid_def stops_kept base_def s3)
  have mid_timeouts: "timeouts mid = filter (\<lambda>e. \<not> fst e \<le> now2) (timeouts s3)"
    by (simp add: mid_def stops_kept base_def)
  have s4_calls: "filter (\<lambda>c. fst c = r) (stopCalls s4) =
      filter (\<lambda>c. fst c = r) (stopCalls s) @ [(r, recording), (r, inactive)]"
    by (simp add: s4_eq recorder_stop_inactive [OF mid_len mid_r] mid_calls s3_calls s2_calls)
  have s4_timeouts: "(due, r) \<notin> set (timeouts s4)"
    using due_now by (simp add: s4_eq recorder_stop_kept mid_timeouts)
  have s3_pending: "(due, r) \<in> set (timeouts s3)"
    by (simp add: s3 s2)
  from kept s3_pending s3_r s3_calls s4_calls s4_timeouts show ?thesis
    by (simp add: s4_def s3_def s2_def r_def due_def)
qed


theorem timeout_survives_manual_stop_witness:
  "map_sum id
     (\<lambda>s1. filter (\<lambda>c. fst c = 0) (stopCalls (elapse 50000 (stopRecording (elapse 10000 s1)))))
     (startRecording loaded_page) = Inr [(0, recording), (0, inactive)]"
proof -
  obtain s1 where s1: "startRecording loaded_page = Inr s1"
    using startRecording_started [of loaded_page] by (auto simp: loaded_page_fields)
  from timeout_survives_manual_stop [of loaded_page s1 10000 50000] s1
  show ?thesis by (simp add: loaded_page_fields known_timeouts_def)
qed

end
